theory Spec2Isabelle
  imports Main
begin

section \<open>Data model of \<^verbatim>\<open>src/App.js\<close>\<close>

text \<open>
  A square holds the string \<^verbatim>\<open>"X"\<close>, the string \<^verbatim>\<open>"O"\<close> or \<^verbatim>\<open>null\<close>. The two strings are
  the constructors of \<open>mark\<close>; a cell is a \<open>mark option\<close>, where \<open>None\<close> stands for the falsy
  values the program can meet in a square: \<^verbatim>\<open>null\<close>, and the \<^verbatim>\<open>undefined\<close> that JavaScript
  returns for a read past the end of an array or from a hole. The program tells the two
  apart nowhere: every \<^verbatim>\<open>===\<close> on squares is guarded by the truthiness of its left operand.
\<close>

datatype mark = MarkX | MarkO

type_synonym cell = "mark option"

type_synonym squares = "cell list"

text \<open>\<^verbatim>\<open>squares[i]\<close>: a read out of range yields \<^verbatim>\<open>undefined\<close>, it does not raise.\<close>

definition sq_at :: "squares \<Rightarrow> nat \<Rightarrow> cell" where
  "sq_at sq i = (if i < length sq then sq ! i else None)"

text \<open>
  \<^verbatim>\<open>squares[i] = v\<close>: a write past the end extends the array, leaving holes (read as
  \<^verbatim>\<open>undefined\<close>) between the old end and index \<open>i\<close>.
\<close>

definition sq_put :: "squares \<Rightarrow> nat \<Rightarrow> cell \<Rightarrow> squares" where
  "sq_put sq i v =
     (if i < length sq then sq[i := v]
      else sq @ replicate (i - length sq) None @ [v])"

text \<open>The number of marks placed on a board.\<close>

definition marks :: "squares \<Rightarrow> nat" where
  "marks sq = length (filter (\<lambda>c. c \<noteq> None) sq)"

section \<open>\<^verbatim>\<open>calculateWinner\<close>\<close>

text \<open>The constant table of the eight winning lines, in the order of the source.\<close>

definition lines :: "(nat \<times> nat \<times> nat) list" where
  "lines = [(0, 1, 2), (3, 4, 5), (6, 7, 8),
            (0, 3, 6), (1, 4, 7), (2, 5, 8),
            (0, 4, 8), (2, 4, 6)]"

text \<open>
  The \<^verbatim>\<open>for\<close> loop over the table, with its early \<^verbatim>\<open>return squares[a]\<close>; the test is
  the source's \<^verbatim>\<open>squares[a] && squares[a] === squares[b] && squares[a] === squares[c]\<close>.
\<close>

fun scan_lines :: "(nat \<times> nat \<times> nat) list \<Rightarrow> squares \<Rightarrow> cell" where
  "scan_lines [] sq = None"
| "scan_lines ((a, b, c) # ls) sq =
     (if sq_at sq a \<noteq> None \<and> sq_at sq a = sq_at sq b \<and> sq_at sq a = sq_at sq c
      then sq_at sq a
      else scan_lines ls sq)"

definition calculateWinner :: "squares \<Rightarrow> cell" where
  "calculateWinner sq = scan_lines lines sq"

text \<open>
  The specification's notion of a completed triple, written from its words: the three
  cells of the triple are non-empty and equal. \<open>line_mark\<close> is the mark occupying such
  a triple, and \<open>None\<close> for a triple that is not completed.
\<close>

fun line_mark :: "squares \<Rightarrow> nat \<times> nat \<times> nat \<Rightarrow> cell" where
  "line_mark sq (a, b, c) =
     (case sq_at sq a of
        None \<Rightarrow> None
      | Some m \<Rightarrow> if sq_at sq b = Some m \<and> sq_at sq c = Some m then Some m else None)"

text \<open>
  The triples of the specification, written from its words and not from the table of the
  source. The board is row-major, so the cell in row \<open>r\<close> and column \<open>c\<close> has index
  \<open>3 * r + c\<close>. A row keeps \<open>r\<close> and runs through the columns, a column keeps \<open>c\<close> and
  runs through the rows; diagonal 0 goes from the top left to the bottom right, diagonal 1
  from the top right to the bottom left. The enumeration is row 0, row 1, row 2,
  column 0, column 1, column 2, diagonal 0, diagonal 1.
\<close>

definition cell_index :: "nat \<Rightarrow> nat \<Rightarrow> nat" where
  "cell_index r c = 3 * r + c"

definition spec_row :: "nat \<Rightarrow> nat \<times> nat \<times> nat" where
  "spec_row r = (cell_index r 0, cell_index r 1, cell_index r 2)"

definition spec_col :: "nat \<Rightarrow> nat \<times> nat \<times> nat" where
  "spec_col c = (cell_index 0 c, cell_index 1 c, cell_index 2 c)"

definition spec_diag0 :: "nat \<times> nat \<times> nat" where
  "spec_diag0 = (cell_index 0 0, cell_index 1 1, cell_index 2 2)"

definition spec_diag1 :: "nat \<times> nat \<times> nat" where
  "spec_diag1 = (cell_index 0 2, cell_index 1 1, cell_index 2 0)"

definition spec_triples :: "(nat \<times> nat \<times> nat) list" where
  "spec_triples = [spec_row 0, spec_row 1, spec_row 2,
                   spec_col 0, spec_col 1, spec_col 2,
                   spec_diag0, spec_diag1]"

section \<open>\<^verbatim>\<open>Board\<close>: \<^verbatim>\<open>handleClick\<close> and the status line\<close>

text \<open>
  \<^verbatim>\<open>handleClick(i)\<close> on the values of the arrays. The component receives \<^verbatim>\<open>xIsNext\<close>,
  \<^verbatim>\<open>squares\<close> and the callback \<^verbatim>\<open>onPlay\<close>. \<open>None\<close> is the early \<^verbatim>\<open>return\<close> (the callback
  is not called); \<open>Some nextSquares\<close> is the call \<^verbatim>\<open>onPlay(nextSquares)\<close>. The index of a
  square is a natural number: \<^verbatim>\<open>Board\<close> calls \<^verbatim>\<open>handleClick\<close> with the literals 0 to 8.
\<close>

definition handleClick :: "bool \<Rightarrow> squares \<Rightarrow> nat \<Rightarrow> squares option" where
  "handleClick xIsNext squares i =
     (if sq_at squares i \<noteq> None \<or> calculateWinner squares \<noteq> None then None
      else
        let nextSquares = squares;
            nextSquares = (if xIsNext then sq_put nextSquares i (Some MarkX)
                           else sq_put nextSquares i (Some MarkO))
        in Some nextSquares)"

text \<open>
  The same function on a store of array objects, where copying and writing are explicit. A
  reference is the position of an array object in the store, objects are allocated at
  the end. \<^verbatim>\<open>squares.slice()\<close> allocates a copy; the assignment \<^verbatim>\<open>nextSquares[i] = ...\<close>
  writes into the object that \<^verbatim>\<open>nextSquares\<close> refers to. A \<^verbatim>\<open>squares\<close> that refers to no
  array (\<^verbatim>\<open>undefined\<close>) makes \<^verbatim>\<open>squares[i]\<close> throw a \<^verbatim>\<open>TypeError\<close>.
\<close>

datatype error = TypeError

type_synonym ref = nat

type_synonym store = "squares list"

definition deref :: "store \<Rightarrow> ref \<Rightarrow> squares option" where
  "deref h p = (if p < length h then Some (h ! p) else None)"

definition slice_alloc :: "store \<Rightarrow> squares \<Rightarrow> ref \<times> store" where
  "slice_alloc h sq = (length h, h @ [sq])"

definition store_at :: "store \<Rightarrow> ref \<Rightarrow> nat \<Rightarrow> cell \<Rightarrow> store" where
  "store_at h p i v = (if p < length h then h[p := sq_put (h ! p) i v] else h)"

definition handleClick_store ::
  "bool \<Rightarrow> store \<Rightarrow> ref \<Rightarrow> nat \<Rightarrow> error + (ref option \<times> store)" where
  "handleClick_store xIsNext h squares i =
     (case deref h squares of
        None \<Rightarrow> Inl TypeError
      | Some sq \<Rightarrow>
          if sq_at sq i \<noteq> None \<or> calculateWinner sq \<noteq> None then Inr (None, h)
          else
            let (nextSquares, h1) = slice_alloc h sq;
                h2 = (if xIsNext then store_at h1 nextSquares i (Some MarkX)
                      else store_at h1 nextSquares i (Some MarkO))
            in Inr (Some nextSquares, h2))"

text \<open>
  The status line of \<^verbatim>\<open>Board\<close>: \<^verbatim>\<open>"Winner: " + winner\<close> when \<^verbatim>\<open>calculateWinner\<close> returns a
  mark, \<^verbatim>\<open>"Next player: " + (xIsNext ? "X" : "O")\<close> otherwise. \<open>mark_str\<close> is the string that
  a mark is in the source.
\<close>

fun mark_str :: "mark \<Rightarrow> string" where
  "mark_str MarkX = ''X''"
| "mark_str MarkO = ''O''"

definition status :: "bool \<Rightarrow> squares \<Rightarrow> string" where
  "status xIsNext squares =
     (case calculateWinner squares of
        Some winner \<Rightarrow> ''Winner: '' @ mark_str winner
      | None \<Rightarrow> ''Next player: '' @ (if xIsNext then ''X'' else ''O''))"

text \<open>
  The status line as the specification words it, with its two prefixes \<^verbatim>\<open>"winner: "\<close> and
  \<^verbatim>\<open>"next to move: "\<close>, to be compared with \<open>status\<close>. The marks are written as the source
  writes them.
\<close>

definition spec_status :: "bool \<Rightarrow> squares \<Rightarrow> string" where
  "spec_status xIsNext squares =
     (case calculateWinner squares of
        Some winner \<Rightarrow> ''winner: '' @ mark_str winner
      | None \<Rightarrow> ''next to move: '' @ mark_str (if xIsNext then MarkX else MarkO))"

section \<open>\<^verbatim>\<open>Game\<close>: history and current move\<close>

text \<open>
  The two \<^verbatim>\<open>useState\<close> cells of \<^verbatim>\<open>Game\<close>. \<^verbatim>\<open>currentMove\<close> is an \<open>int\<close>: \<^verbatim>\<open>jumpTo\<close> stores
  whatever number it is given. Every array stored in the history is fresh (made by
  \<^verbatim>\<open>slice\<close> in \<^verbatim>\<open>handleClick\<close>) and is never written after \<^verbatim>\<open>onPlay\<close>, so the history is
  modelled by the values of its boards.
\<close>

record game =
  history :: "squares list"
  currentMove :: int

definition initial :: game where
  "initial = \<lparr>history = [replicate 9 None], currentMove = 0\<rparr>"

text \<open>
  \<^verbatim>\<open>currentMove % 2 === 0\<close>. The remainder of JavaScript takes the sign of the dividend,
  that of HOL is never negative; both are zero for exactly the even numbers.
\<close>

definition xIsNext :: "game \<Rightarrow> bool" where
  "xIsNext g = (currentMove g mod 2 = 0)"

text \<open>\<^verbatim>\<open>history[currentMove]\<close>; \<open>None\<close> is \<^verbatim>\<open>undefined\<close>, the result of a read out of range.\<close>

definition currentSquares :: "game \<Rightarrow> squares option" where
  "currentSquares g =
     (if 0 \<le> currentMove g \<and> currentMove g < int (length (history g))
      then Some (history g ! nat (currentMove g)) else None)"

text \<open>
  \<^verbatim>\<open>xs.slice(0, e)\<close>: a negative end counts from the end of the array, an end beyond the
  length is the length.
\<close>

definition slice0 :: "'a list \<Rightarrow> int \<Rightarrow> 'a list" where
  "slice0 xs e =
     take (nat (if e < 0 then max (int (length xs) + e) 0 else min e (int (length xs)))) xs"

definition handlePlay :: "game \<Rightarrow> squares \<Rightarrow> game" where
  "handlePlay g nextSquares =
     (let nextHistory = slice0 (history g) (currentMove g + 1) @ [nextSquares]
      in \<lparr>history = nextHistory, currentMove = int (length nextHistory) - 1\<rparr>)"

definition jumpTo :: "game \<Rightarrow> int \<Rightarrow> game" where
  "jumpTo g nextMove = g\<lparr>currentMove := nextMove\<rparr>"

text \<open>
  A click on square \<open>i\<close> of the rendered game, the specification's \<^verbatim>\<open>playMove\<close>: \<^verbatim>\<open>Game\<close>
  renders \<^verbatim>\<open>Board\<close> with \<^verbatim>\<open>xIsNext\<close>, \<^verbatim>\<open>squares = history[currentMove]\<close> and
  \<^verbatim>\<open>onPlay = handlePlay\<close>, and the click runs \<^verbatim>\<open>handleClick(i)\<close>. When \<^verbatim>\<open>history[currentMove]\<close>
  is \<^verbatim>\<open>undefined\<close>, reading a square of it throws.
\<close>

definition playMove :: "game \<Rightarrow> nat \<Rightarrow> error + game" where
  "playMove g i =
     (case currentSquares g of
        None \<Rightarrow> Inl TypeError
      | Some squares \<Rightarrow>
          (case handleClick (xIsNext g) squares i of
             None \<Rightarrow> Inr g
           | Some nextSquares \<Rightarrow> Inr (handlePlay g nextSquares)))"

text \<open>Sequences of user actions: clicks on squares and on the entries of the move list.\<close>

datatype action = Click nat | Jump int

fun step :: "game \<Rightarrow> action \<Rightarrow> error + game" where
  "step g (Click i) = playMove g i"
| "step g (Jump k) = Inr (jumpTo g k)"

fun run :: "game \<Rightarrow> action list \<Rightarrow> error + game" where
  "run g [] = Inr g"
| "run g (a # as) = (case step g a of Inl e \<Rightarrow> Inl e | Inr g' \<Rightarrow> run g' as)"

section \<open>The invariant of the history, and the states of a sample game\<close>

text \<open>The board at position \<open>k\<close> of the history carries \<open>k\<close> marks.\<close>

definition hist_inv :: "game \<Rightarrow> bool" where
  "hist_inv g = (\<forall>k<length (history g). marks (history g ! k) = k)"

text \<open>
  The boards of the game in which X takes squares 0, 1, 2 and O takes squares 4, 3, and
  two states over them: after the fifth move, and after going back to move 2.
\<close>

definition ex_b0 :: squares where
  "ex_b0 = [None, None, None, None, None, None, None, None, None]"
definition ex_b1 :: squares where
  "ex_b1 = [Some MarkX, None, None, None, None, None, None, None, None]"
definition ex_b2 :: squares where
  "ex_b2 = [Some MarkX, None, None, None, Some MarkO, None, None, None, None]"
definition ex_b3 :: squares where
  "ex_b3 = [Some MarkX, Some MarkX, None, None, Some MarkO, None, None, None, None]"
definition ex_b4 :: squares where
  "ex_b4 = [Some MarkX, Some MarkX, None, Some MarkO, Some MarkO, None, None, None, None]"
definition ex_b5 :: squares where
  "ex_b5 = [Some MarkX, Some MarkX, Some MarkX, Some MarkO, Some MarkO, None, None, None, None]"
definition ex_won :: game where
  "ex_won = \<lparr>history = [ex_b0, ex_b1, ex_b2, ex_b3, ex_b4, ex_b5], currentMove = 5\<rparr>"
definition ex_back :: game where
  "ex_back = \<lparr>history = [ex_b0, ex_b1, ex_b2, ex_b3, ex_b4, ex_b5], currentMove = 2\<rparr>"

section \<open>Properties of \<^verbatim>\<open>calculateWinner\<close>\<close>

lemma scan_lines_step:
  "scan_lines (l # ls) sq = (case line_mark sq l of None \<Rightarrow> scan_lines ls sq | Some m \<Rightarrow> Some m)"
  by (cases l) (auto split: option.splits)

lemma scan_lines_first:
  "k < length ls \<Longrightarrow> line_mark sq (ls ! k) = Some m \<Longrightarrow>
   (\<And>j. j < k \<Longrightarrow> line_mark sq (ls ! j) = None) \<Longrightarrow> scan_lines ls sq = Some m"
proof (induction ls arbitrary: k)
  case Nil
  then show ?case by simp
next
  case (Cons l ls)
  show ?case
  proof (cases k)
    case 0
    with Cons.prems(2) show ?thesis
      by (simp add: scan_lines_step del: scan_lines.simps)
  next
    case (Suc k')
    from Cons.prems(3) [of 0] Suc have hd_none: "line_mark sq l = None"
      by simp
    have "scan_lines ls sq = Some m"
    proof (rule Cons.IH)
      show "k' < length ls" using Cons.prems(1) Suc by simp
      show "line_mark sq (ls ! k') = Some m" using Cons.prems(2) Suc by simp
      show "line_mark sq (ls ! j) = None" if "j < k'" for j
        using Cons.prems(3) [of "Suc j"] that Suc by simp
    qed
    with hd_none show ?thesis
      by (simp add: scan_lines_step del: scan_lines.simps)
  qed
qed

lemma scan_lines_none:
  "(\<And>l. l \<in> set ls \<Longrightarrow> line_mark sq l = None) \<Longrightarrow> scan_lines ls sq = None"
  by (induction ls) (simp_all add: scan_lines_step del: scan_lines.simps(2))

lemma lines_spec_triples: "lines = spec_triples"
  by (simp add: lines_def spec_triples_def spec_row_def spec_col_def spec_diag0_def
      spec_diag1_def cell_index_def)

lemma all_before_take:
  "k \<le> length xs \<Longrightarrow> (\<forall>j<k. P (xs ! j)) = (\<forall>x \<in> set (take k xs). P x)"
  by (simp add: all_set_conv_all_nth)

text \<open>
  Claim C1. On a board with at least one completed triple, \<^verbatim>\<open>calculateWinner\<close> returns the
  mark occupying the completed triple that comes first in the enumeration
  row 0, row 1, row 2, column 0, column 1, column 2, diagonal 0, diagonal 1 of the
  specification: if the triple at position \<open>k\<close> of that enumeration is completed with mark
  \<open>m\<close> and no triple before it is completed, the result is \<open>m\<close>.
\<close>

theorem calculateWinner_earliest_triple:
  assumes "k < length spec_triples"
    and "line_mark sq (spec_triples ! k) = Some m"
    and "\<forall>j<k. line_mark sq (spec_triples ! j) = None"
  shows "calculateWinner sq = Some m"
proof -
  have "scan_lines spec_triples sq = Some m"
    using assms by (intro scan_lines_first [where k = k]) auto
  then show ?thesis
    by (simp add: calculateWinner_def lines_spec_triples)
qed

theorem calculateWinner_earliest_triple_witness:
  "line_mark [Some MarkO, Some MarkX, Some MarkX,
              Some MarkO, Some MarkX, None,
              Some MarkO, Some MarkX, None] (spec_col 0) = Some MarkO
   \<and> line_mark [Some MarkO, Some MarkX, Some MarkX,
              Some MarkO, Some MarkX, None,
              Some MarkO, Some MarkX, None] (spec_col 1) = Some MarkX
   \<and> calculateWinner [Some MarkO, Some MarkX, Some MarkX,
              Some MarkO, Some MarkX, None,
              Some MarkO, Some MarkX, None] = Some MarkO
   \<and> line_mark [Some MarkX, Some MarkX, Some MarkO,
              Some MarkX, None, Some MarkO,
              None, None, Some MarkO] (spec_col 2) = Some MarkO
   \<and> calculateWinner [Some MarkX, Some MarkX, Some MarkO,
              Some MarkX, None, Some MarkO,
              None, None, Some MarkO] = Some MarkO
   \<and> line_mark [Some MarkX, Some MarkO, Some MarkX,
              Some MarkO, Some MarkX, Some MarkO,
              Some MarkX, Some MarkO, Some MarkX] spec_diag0 = Some MarkX
   \<and> line_mark [Some MarkX, Some MarkO, Some MarkX,
              Some MarkO, Some MarkX, Some MarkO,
              Some MarkX, Some MarkO, Some MarkX] spec_diag1 = Some MarkX
   \<and> calculateWinner [Some MarkX, Some MarkO, Some MarkX,
              Some MarkO, Some MarkX, Some MarkO,
              Some MarkX, Some MarkO, Some MarkX] = Some MarkX"
proof -
  let ?b = "[Some MarkO, Some MarkX, Some MarkX,
             Some MarkO, Some MarkX, None,
             Some MarkO, Some MarkX, None]"
  let ?c = "[Some MarkX, Some MarkX, Some MarkO,
             Some MarkX, None, Some MarkO,
             None, None, Some MarkO]"
  let ?d = "[Some MarkX, Some MarkO, Some MarkX,
             Some MarkO, Some MarkX, Some MarkO,
             Some MarkX, Some MarkO, Some MarkX]"
  note geometry = spec_row_def spec_col_def spec_diag0_def spec_diag1_def cell_index_def
  have len: "length spec_triples = 8"
    by (simp add: spec_triples_def)
  have k3: "(3::nat) < length spec_triples" and k5: "(5::nat) < length spec_triples"
    and k6: "(6::nat) < length spec_triples"
    by (simp_all add: len)
  have b3: "line_mark ?b (spec_triples ! 3) = Some MarkO"
    by (simp add: spec_triples_def geometry sq_at_def)
  have b_before: "\<forall>j<3. line_mark ?b (spec_triples ! j) = None"
    by (subst all_before_take) (simp_all add: spec_triples_def geometry sq_at_def)
  have c5: "line_mark ?c (spec_triples ! 5) = Some MarkO"
    by (simp add: spec_triples_def geometry sq_at_def)
  have c_before: "\<forall>j<5. line_mark ?c (spec_triples ! j) = None"
    by (subst all_before_take) (simp_all add: spec_triples_def geometry sq_at_def)
  have d6: "line_mark ?d (spec_triples ! 6) = Some MarkX"
    by (simp add: spec_triples_def geometry sq_at_def)
  have d_before: "\<forall>j<6. line_mark ?d (spec_triples ! j) = None"
    by (subst all_before_take) (simp_all add: spec_triples_def geometry sq_at_def)
  have others: "line_mark ?b (spec_col 0) = Some MarkO" "line_mark ?b (spec_col 1) = Some MarkX"
    "line_mark ?c (spec_col 2) = Some MarkO"
    "line_mark ?d spec_diag0 = Some MarkX" "line_mark ?d spec_diag1 = Some MarkX"
    by (simp_all add: geometry sq_at_def)
  from calculateWinner_earliest_triple [OF k3 b3 b_before]
    calculateWinner_earliest_triple [OF k5 c5 c_before]
    calculateWinner_earliest_triple [OF k6 d6 d_before] others
  show ?thesis
    by simp
qed

text \<open>
  Claim C2. On a board where none of the eight triples is completed, \<^verbatim>\<open>calculateWinner\<close>
  returns \<^verbatim>\<open>null\<close>. The empty board and a fully filled board without three in a row are
  such boards.
\<close>

theorem calculateWinner_no_triple:
  assumes "\<forall>l \<in> set lines. line_mark sq l = None"
  shows "calculateWinner sq = None"
  unfolding calculateWinner_def
  using assms by (intro scan_lines_none) auto

theorem calculateWinner_no_triple_witness:
  "calculateWinner (replicate 9 None) = None
   \<and> marks [Some MarkX, Some MarkO, Some MarkX,
            Some MarkX, Some MarkO, Some MarkO,
            Some MarkO, Some MarkX, Some MarkX] = 9
   \<and> calculateWinner [Some MarkX, Some MarkO, Some MarkX,
                      Some MarkX, Some MarkO, Some MarkO,
                      Some MarkO, Some MarkX, Some MarkX] = None"
proof -
  let ?d = "[Some MarkX, Some MarkO, Some MarkX,
             Some MarkX, Some MarkO, Some MarkO,
             Some MarkO, Some MarkX, Some MarkX]"
  have nine: "replicate 9 None = [None, None, None, None, None, None, None, None, (None::cell)]"
    by (simp add: numeral_eq_Suc)
  have e: "\<forall>l \<in> set lines. line_mark (replicate 9 None) l = None"
    unfolding nine by (simp add: lines_def sq_at_def)
  have d: "\<forall>l \<in> set lines. line_mark ?d l = None"
    by (simp add: lines_def sq_at_def)
  have m: "marks ?d = 9"
    by (simp add: marks_def)
  from calculateWinner_no_triple [OF e] calculateWinner_no_triple [OF d] m show ?thesis
    by simp
qed

section \<open>Reading and writing squares\<close>

lemma sq_at_sq_put:
  "sq_at (sq_put sq i v) j = (if j = i then v else sq_at sq j)"
  by (auto simp: sq_at_def sq_put_def nth_append)

lemma marks_sq_put:
  assumes "sq_at sq i = None"
  shows "marks (sq_put sq i (Some m)) = Suc (marks sq)"
proof (cases "i < length sq")
  case True
  with assms have nth: "sq ! i = None"
    by (simp add: sq_at_def)
  have old: "sq = take i sq @ None # drop (Suc i) sq"
    using True nth id_take_nth_drop [of i sq] by simp
  have new: "sq_put sq i (Some m) = take i sq @ Some m # drop (Suc i) sq"
    using True by (simp add: sq_put_def upd_conv_take_nth_drop)
  have "marks sq = marks (take i sq) + marks (drop (Suc i) sq)"
    by (subst old) (simp add: marks_def)
  moreover have "marks (sq_put sq i (Some m)) = marks (take i sq) + Suc (marks (drop (Suc i) sq))"
    unfolding new by (simp add: marks_def)
  ultimately show ?thesis by simp
next
  case False
  then show ?thesis
    by (simp add: sq_put_def marks_def)
qed

section \<open>One click\<close>

lemma slice0_in_range:
  "0 \<le> c \<Longrightarrow> c < int (length xs) \<Longrightarrow> slice0 xs (c + 1) = take (Suc (nat c)) xs"
  by (simp add: slice0_def min_def nat_add_distrib)

lemma currentSquares_Some:
  "currentSquares g = Some sq \<longleftrightarrow>
     0 \<le> currentMove g \<and> currentMove g < int (length (history g)) \<and> sq = history g ! nat (currentMove g)"
  by (auto simp: currentSquares_def)

lemma handleClick_accept:
  "sq_at sq i = None \<Longrightarrow> calculateWinner sq = None \<Longrightarrow>
   handleClick xn sq i = Some (sq_put sq i (Some (if xn then MarkX else MarkO)))"
  by (simp add: handleClick_def)

lemma handleClick_reject:
  "sq_at sq i \<noteq> None \<or> calculateWinner sq \<noteq> None \<Longrightarrow> handleClick xn sq i = None"
  by (auto simp add: handleClick_def)

lemma playMove_accept:
  assumes "currentSquares g = Some sq" "sq_at sq i = None" "calculateWinner sq = None"
  shows "playMove g i =
    Inr \<lparr>history = take (Suc (nat (currentMove g))) (history g) @
                     [sq_put sq i (Some (if xIsNext g then MarkX else MarkO))],
         currentMove = currentMove g + 1\<rparr>"
proof -
  from assms(1) have r: "0 \<le> currentMove g" "currentMove g < int (length (history g))"
    by (simp_all add: currentSquares_Some)
  have len: "int (length (take (Suc (nat (currentMove g))) (history g))) = currentMove g + 1"
    using r by (auto simp: min_def)
  show ?thesis
    using assms r len
    by (simp add: playMove_def handleClick_accept handlePlay_def slice0_in_range Let_def)
qed

lemma playMove_reject:
  assumes "currentSquares g = Some sq" "sq_at sq i \<noteq> None \<or> calculateWinner sq \<noteq> None"
  shows "playMove g i = Inr g"
  using assms by (simp add: playMove_def handleClick_reject)

lemma xIsNext_even: "xIsNext g = even (currentMove g)"
  by (simp add: xIsNext_def even_iff_mod_2_eq_zero)

section \<open>The invariant is kept by every action\<close>

lemma hist_inv_playMove:
  assumes "hist_inv g" "playMove g i = Inr g'"
  shows "hist_inv g'"
proof (cases "currentSquares g")
  case None
  with assms(2) show ?thesis by (simp add: playMove_def)
next
  case (Some sq)
  then have r: "0 \<le> currentMove g" "currentMove g < int (length (history g))"
    and sq: "sq = history g ! nat (currentMove g)"
    by (simp_all add: currentSquares_Some)
  show ?thesis
  proof (cases "sq_at sq i = None \<and> calculateWinner sq = None")
    case False
    with Some assms show ?thesis
      using playMove_reject [of g sq i] by auto
  next
    case True
    let ?c = "nat (currentMove g)"
    let ?n = "sq_put sq i (Some (if xIsNext g then MarkX else MarkO))"
    from True Some assms(2) have g': "history g' = take (Suc ?c) (history g) @ [?n]"
      using playMove_accept [of g sq i] by auto
    have c: "?c < length (history g)" using r by simp
    have len: "length (take (Suc ?c) (history g)) = Suc ?c"
      using c by simp
    have "marks sq = ?c"
      using assms(1) c sq by (simp add: hist_inv_def)
    with True have new: "marks ?n = Suc ?c"
      by (simp add: marks_sq_put)
    show ?thesis
      unfolding hist_inv_def
    proof (intro allI impI)
      fix k assume "k < length (history g')"
      then have "k \<le> Suc ?c" using g' len by simp
      then consider "k < Suc ?c" | "k = Suc ?c" by linarith
      then show "marks (history g' ! k) = k"
      proof cases
        case 1
        then have "history g' ! k = history g ! k"
          using g' len by (simp add: nth_append)
        moreover have "k < length (history g)" using 1 c by simp
        ultimately show ?thesis using assms(1) by (simp add: hist_inv_def)
      next
        case 2
        then have "history g' ! k = ?n"
          using g' len by (simp add: nth_append)
        with new 2 show ?thesis by simp
      qed
    qed
  qed
qed

lemma hist_inv_jumpTo: "hist_inv (jumpTo g k) = hist_inv g"
  by (simp add: hist_inv_def jumpTo_def)

lemma hist_inv_step: "hist_inv g \<Longrightarrow> step g a = Inr g' \<Longrightarrow> hist_inv g'"
proof (cases a)
  case (Click i)
  assume "hist_inv g" "step g a = Inr g'"
  with Click show ?thesis
    using hist_inv_playMove [of g i g'] by simp
next
  case (Jump k)
  assume "hist_inv g" "step g a = Inr g'"
  with Jump show ?thesis
    using hist_inv_jumpTo [of g k] by auto
qed

lemma hist_inv_run: "hist_inv g \<Longrightarrow> run g as = Inr g' \<Longrightarrow> hist_inv g'"
proof (induction as arbitrary: g)
  case Nil
  then show ?case by simp
next
  case (Cons a as)
  then show ?case
    by (auto split: sum.splits dest: hist_inv_step)
qed

lemma hist_inv_initial: "hist_inv initial"
  by (simp add: hist_inv_def initial_def marks_def)

section \<open>The sample game\<close>

lemmas ex_boards = ex_b0_def ex_b1_def ex_b2_def ex_b3_def ex_b4_def ex_b5_def

lemma replicate_9: "replicate 9 x = [x, x, x, x, x, x, x, x, x]"
  by (simp add: numeral_eq_Suc)

lemma initial_ex: "initial = \<lparr>history = [ex_b0], currentMove = 0\<rparr>"
  by (simp add: initial_def replicate_9 ex_b0_def)

lemma ex_back_current: "currentSquares ex_back = Some ex_b2"
  by (simp add: currentSquares_def ex_back_def)

lemma ex_won_current: "currentSquares ex_won = Some ex_b5"
  by (simp add: currentSquares_def ex_won_def)

lemma ex_b2_no_winner: "calculateWinner ex_b2 = None"
  by (simp add: calculateWinner_def lines_def sq_at_def ex_b2_def)

lemma ex_b5_winner: "calculateWinner ex_b5 = Some MarkX"
  by (simp add: calculateWinner_def lines_def sq_at_def ex_b5_def)

lemma ex_b2_cells: "sq_at ex_b2 8 = None" "sq_at ex_b2 4 = Some MarkO" "sq_at ex_b5 5 = None"
  by (simp_all add: sq_at_def ex_b2_def ex_b5_def)

lemma run_ex:
  "run initial [Click 0, Click 4, Click 1, Click 3, Click 2, Click 5, Jump 2, Click 4] = Inr ex_back"
  by (simp add: initial_ex playMove_def currentSquares_def handleClick_def handlePlay_def
      slice0_def xIsNext_def jumpTo_def calculateWinner_def lines_def sq_at_def sq_put_def
      ex_boards ex_back_def)

section \<open>Properties of the game\<close>

text \<open>
  Claim C3. When the click is accepted at cursor \<open>C\<close> (the current board \<open>history[C]\<close>
  exists, its square \<open>i\<close> is empty and it has no winner), the click returns a state whose
  history has length \<open>C + 2\<close> and whose cursor is \<open>C + 1\<close>; the entries \<open>0..C\<close> of the
  history are unchanged, and the new history is these entries followed by the one new
  board, so every entry that was at index \<open>C + 1\<close> or beyond is gone.
\<close>

theorem playMove_accepted_history:
  assumes "currentSquares g = Some sq"
    and "sq_at sq i = None"
    and "calculateWinner sq = None"
  shows "\<exists>g'. playMove g i = Inr g'
           \<and> int (length (history g')) = currentMove g + 2
           \<and> currentMove g' = currentMove g + 1
           \<and> take (nat (currentMove g) + 1) (history g') = take (nat (currentMove g) + 1) (history g)
           \<and> history g' = take (nat (currentMove g) + 1) (history g)
                            @ [sq_put sq i (Some (if xIsNext g then MarkX else MarkO))]"
proof -
  from assms(1) have r: "0 \<le> currentMove g" "currentMove g < int (length (history g))"
    by (simp_all add: currentSquares_Some)
  then have len: "length (take (Suc (nat (currentMove g))) (history g)) = Suc (nat (currentMove g))"
    by simp
  from r len have "int (length (take (Suc (nat (currentMove g))) (history g))) = currentMove g + 1"
    by simp
  with len show ?thesis
    unfolding playMove_accept [OF assms] by simp
qed

theorem playMove_accepted_history_witness:
  "currentSquares ex_back = Some ex_b2 \<and> sq_at ex_b2 8 = None \<and> calculateWinner ex_b2 = None
   \<and> length (history ex_back) = 6
   \<and> (\<exists>g'. playMove ex_back 8 = Inr g' \<and> length (history g') = 4 \<and> currentMove g' = 3
          \<and> take 3 (history g') = [ex_b0, ex_b1, ex_b2])"
proof -
  have "\<exists>g'. playMove ex_back 8 = Inr g' \<and> length (history g') = 4 \<and> currentMove g' = 3
          \<and> take 3 (history g') = [ex_b0, ex_b1, ex_b2]"
    using playMove_accepted_history [OF ex_back_current ex_b2_cells(1) ex_b2_no_winner]
    by (auto simp: ex_back_def)
  then show ?thesis
    using ex_back_current ex_b2_cells(1) ex_b2_no_winner by (simp add: ex_back_def)
qed

text \<open>
  Claim C4. When the current board has square \<open>i\<close> occupied, or \<^verbatim>\<open>calculateWinner\<close> of the
  current board returns a mark, the click returns the state it was given (history and
  cursor unchanged) and raises nothing.
\<close>

theorem playMove_rejected_noop:
  assumes "currentSquares g = Some sq"
    and "sq_at sq i \<noteq> None \<or> calculateWinner sq \<noteq> None"
  shows "playMove g i = Inr g"
  using assms by (rule playMove_reject)

theorem playMove_rejected_noop_witness:
  "currentSquares ex_back = Some ex_b2 \<and> sq_at ex_b2 4 = Some MarkO \<and> playMove ex_back 4 = Inr ex_back
   \<and> currentSquares ex_won = Some ex_b5 \<and> sq_at ex_b5 5 = None \<and> calculateWinner ex_b5 = Some MarkX
   \<and> playMove ex_won 5 = Inr ex_won"
proof -
  have occupied: "sq_at ex_b2 4 \<noteq> None \<or> calculateWinner ex_b2 \<noteq> None"
    by (simp add: ex_b2_cells)
  have won: "sq_at ex_b5 5 \<noteq> None \<or> calculateWinner ex_b5 \<noteq> None"
    by (simp add: ex_b5_winner)
  from playMove_rejected_noop [OF ex_back_current occupied]
    playMove_rejected_noop [OF ex_won_current won]
  show ?thesis
    by (simp add: ex_back_current ex_won_current ex_b2_cells ex_b5_winner)
qed

text \<open>
  Claim C5. For a valid index \<open>0 \<le> k < length history\<close>, \<^verbatim>\<open>jumpTo(k)\<close> leaves the history
  unchanged, sets the cursor to \<open>k\<close>, and the current board read afterwards is
  \<open>history[k]\<close>.
\<close>

theorem jumpTo_roundtrip:
  assumes "0 \<le> k" and "k < int (length (history g))"
  shows "history (jumpTo g k) = history g
       \<and> currentMove (jumpTo g k) = k
       \<and> currentSquares (jumpTo g k) = Some (history g ! nat k)"
  using assms by (simp add: jumpTo_def currentSquares_def)

theorem jumpTo_roundtrip_witness:
  "(0::int) \<le> 2 \<and> 2 < int (length (history ex_won))
   \<and> history (jumpTo ex_won 2) = history ex_won
   \<and> currentMove (jumpTo ex_won 2) = 2
   \<and> currentSquares (jumpTo ex_won 2) = Some ex_b2"
proof -
  have lo: "(0::int) \<le> 2" by simp
  have hi: "2 < int (length (history ex_won))" by (simp add: ex_won_def)
  from jumpTo_roundtrip [OF lo hi] lo hi show ?thesis
    by (simp add: ex_won_def)
qed

text \<open>
  Claim C6. In every state reached from the initial state (one empty board, cursor 0) by
  a sequence of clicks and jumps, the board at each index \<open>k\<close> of the history has exactly
  \<open>k\<close> non-empty squares. The jumps are not restricted to valid targets and the clicks
  not to the squares 0 to 8.
\<close>

theorem history_marks_invariant:
  assumes "run initial as = Inr g" and "k < length (history g)"
  shows "marks (history g ! k) = k"
proof -
  from hist_inv_initial assms(1) have "hist_inv g"
    by (rule hist_inv_run)
  with assms(2) show ?thesis
    by (simp add: hist_inv_def)
qed

theorem history_marks_invariant_witness:
  "run initial [Click 0, Click 4, Click 1, Click 3, Click 2, Click 5, Jump 2, Click 4] = Inr ex_back
   \<and> (5::nat) < length (history ex_back)
   \<and> history ex_back ! 5 = ex_b5 \<and> marks ex_b5 = 5"
proof -
  have k: "(5::nat) < length (history ex_back)"
    by (simp add: ex_back_def)
  have "history ex_back ! 5 = ex_b5"
    by (simp add: ex_back_def)
  with history_marks_invariant [OF run_ex k] run_ex k show ?thesis
    by simp
qed

text \<open>
  Claim C7. The mark placed by an accepted click is the one given by the parity of the
  cursor: X when the cursor is even, O when it is odd. The turn is no field of the state:
  \<open>xIsNext\<close> is a function of \<open>currentMove\<close>.
\<close>

theorem playMove_mark_parity:
  assumes "currentSquares g = Some sq"
    and "sq_at sq i = None"
    and "calculateWinner sq = None"
  shows "xIsNext g = even (currentMove g)
       \<and> (\<exists>g' sq'. playMove g i = Inr g' \<and> currentSquares g' = Some sq'
             \<and> sq_at sq' i = Some (if even (currentMove g) then MarkX else MarkO))"
proof -
  let ?c = "nat (currentMove g)"
  let ?n = "sq_put sq i (Some (if xIsNext g then MarkX else MarkO))"
  let ?g' = "\<lparr>history = take (Suc ?c) (history g) @ [?n], currentMove = currentMove g + 1\<rparr>"
  from assms(1) have r: "0 \<le> currentMove g" "currentMove g < int (length (history g))"
    by (simp_all add: currentSquares_Some)
  then have len: "length (take (Suc ?c) (history g)) = Suc ?c"
    by simp
  have idx: "nat (currentMove g + 1) = Suc ?c"
    using r by simp
  have "currentSquares ?g' = Some ?n"
    using r len by (simp add: currentSquares_def idx nth_append)
  moreover have "sq_at ?n i = Some (if even (currentMove g) then MarkX else MarkO)"
    by (simp add: sq_at_sq_put xIsNext_even)
  moreover have "playMove g i = Inr ?g'"
    using assms by (rule playMove_accept)
  ultimately show ?thesis
    using xIsNext_even by blast
qed

theorem playMove_mark_parity_witness:
  "currentSquares ex_back = Some ex_b2 \<and> sq_at ex_b2 8 = None \<and> calculateWinner ex_b2 = None
   \<and> currentMove ex_back = 2 \<and> xIsNext ex_back
   \<and> (\<exists>g' sq'. playMove ex_back 8 = Inr g' \<and> currentSquares g' = Some sq'
         \<and> sq_at sq' 8 = Some MarkX)"
proof -
  have c: "currentMove ex_back = 2"
    by (simp add: ex_back_def)
  from playMove_mark_parity [OF ex_back_current ex_b2_cells(1) ex_b2_no_winner] c
    ex_back_current ex_b2_cells(1) ex_b2_no_winner
  show ?thesis
    by simp
qed

text \<open>
  Claim C8. For an accepted move on board \<open>b\<close> at square \<open>i\<close>, \<^verbatim>\<open>handleClick\<close> passes on a
  new array object that holds the mark at \<open>i\<close> and equals \<open>b\<close> at every other index; the
  new object is not the one it was given, and the array it was given is unchanged in the
  store. The board on values, \<open>handleClick\<close>, is the content of the new object.
\<close>

theorem handleClick_fresh_board:
  assumes "deref h p = Some b"
    and "sq_at b i = None"
    and "calculateWinner b = None"
  shows "\<exists>n. handleClick_store xn h p i = Inr (Some (length h), h @ [n])
           \<and> handleClick xn b i = Some n
           \<and> sq_at n i = Some (if xn then MarkX else MarkO)
           \<and> (\<forall>j. j \<noteq> i \<longrightarrow> sq_at n j = sq_at b j)
           \<and> length h \<noteq> p
           \<and> deref (h @ [n]) p = Some b
           \<and> deref (h @ [n]) (length h) = Some n"
proof -
  let ?n = "sq_put b i (Some (if xn then MarkX else MarkO))"
  from assms(1) have p: "p < length h" and b: "h ! p = b"
    by (simp_all add: deref_def split: if_splits)
  have "handleClick_store xn h p i = Inr (Some (length h), h @ [?n])"
    using assms by (simp add: handleClick_store_def slice_alloc_def store_at_def)
  moreover have "handleClick xn b i = Some ?n"
    using assms(2,3) by (simp add: handleClick_accept)
  moreover have "sq_at ?n i = Some (if xn then MarkX else MarkO)"
    by (simp add: sq_at_sq_put)
  moreover have "\<forall>j. j \<noteq> i \<longrightarrow> sq_at ?n j = sq_at b j"
    by (simp add: sq_at_sq_put)
  moreover have "deref (h @ [?n]) p = Some b"
    using p b by (simp add: deref_def nth_append)
  moreover have "deref (h @ [?n]) (length h) = Some ?n"
    by (simp add: deref_def)
  ultimately show ?thesis
    using p by blast
qed

theorem handleClick_fresh_board_witness:
  "deref [ex_b0, ex_b1] 1 = Some ex_b1 \<and> sq_at ex_b1 4 = None \<and> calculateWinner ex_b1 = None
   \<and> handleClick_store False [ex_b0, ex_b1] 1 4 = Inr (Some 2, [ex_b0, ex_b1, ex_b2])"
proof -
  have d: "deref [ex_b0, ex_b1] 1 = Some ex_b1"
    by (simp add: deref_def)
  have e: "sq_at ex_b1 4 = None"
    by (simp add: sq_at_def ex_b1_def)
  have w: "calculateWinner ex_b1 = None"
    by (simp add: calculateWinner_def lines_def sq_at_def ex_b1_def)
  have "handleClick False ex_b1 4 = Some ex_b2"
    by (simp add: handleClick_def e w) (simp add: sq_put_def ex_b1_def ex_b2_def)
  with handleClick_fresh_board [OF d e w, of False] d e w show ?thesis
    by auto
qed

text \<open>
  Claim C9, as amended. The status line is \<^verbatim>\<open>"Winner: "\<close> followed by the mark when
  \<^verbatim>\<open>calculateWinner\<close> of the board returns a mark, and otherwise \<^verbatim>\<open>"Next player: "\<close> followed
  by the mark given by the parity of the cursor, X when it is even and O when it is odd.
\<close>

theorem status_derivation:
  "status (xIsNext g) sq =
     (case calculateWinner sq of
        Some m \<Rightarrow> ''Winner: '' @ mark_str m
      | None \<Rightarrow> ''Next player: '' @ mark_str (if even (currentMove g) then MarkX else MarkO))"
  by (simp add: status_def xIsNext_even split: option.splits)

theorem status_derivation_witness:
  "status (xIsNext ex_won) ex_b5 = ''Winner: X''
   \<and> status (xIsNext ex_back) ex_b2 = ''Next player: X''
   \<and> status (xIsNext (jumpTo ex_won 3)) ex_b3 = ''Next player: O''"
proof -
  have "calculateWinner ex_b3 = None"
    by (simp add: calculateWinner_def lines_def sq_at_def ex_b3_def)
  with status_derivation [of ex_won ex_b5] status_derivation [of ex_back ex_b2]
    status_derivation [of "jumpTo ex_won 3" ex_b3]
  show ?thesis
    by (simp add: ex_b5_winner ex_b2_no_winner ex_won_def ex_back_def jumpTo_def)
qed

text \<open>
  The status line of the source is not the one the specification words: on the won board
  of the sample game the source shows \<^verbatim>\<open>"Winner: X"\<close> where the specification has
  \<^verbatim>\<open>"winner: X"\<close>, and on its board after two moves the source shows \<^verbatim>\<open>"Next player: X"\<close>
  where the specification has \<^verbatim>\<open>"next to move: X"\<close>.
\<close>

theorem status_spec_wording_counterexample:
  "status (xIsNext ex_won) ex_b5 = ''Winner: X''
   \<and> spec_status (xIsNext ex_won) ex_b5 = ''winner: X''
   \<and> status (xIsNext ex_won) ex_b5 \<noteq> spec_status (xIsNext ex_won) ex_b5
   \<and> status (xIsNext ex_back) ex_b2 = ''Next player: X''
   \<and> spec_status (xIsNext ex_back) ex_b2 = ''next to move: X''
   \<and> status (xIsNext ex_back) ex_b2 \<noteq> spec_status (xIsNext ex_back) ex_b2"
  by (simp add: status_def spec_status_def xIsNext_def ex_b5_winner ex_b2_no_winner
      ex_won_def ex_back_def)

text \<open>
  Claim C10. \<^verbatim>\<open>jumpTo\<close> checks no range: it sets the cursor to any target \<open>t\<close>. The lookup
  \<open>history[cursor]\<close> that follows yields a board exactly when \<open>0 \<le> t < length history\<close>,
  and yields \<^verbatim>\<open>undefined\<close> for every other target.
\<close>

theorem jumpTo_no_range_check:
  "currentMove (jumpTo g t) = t
   \<and> history (jumpTo g t) = history g
   \<and> currentSquares (jumpTo g t) =
       (if 0 \<le> t \<and> t < int (length (history g)) then Some (history g ! nat t) else None)"
  by (simp add: jumpTo_def currentSquares_def)

theorem jumpTo_no_range_check_witness:
  "currentSquares (jumpTo ex_won 5) = Some ex_b5
   \<and> currentMove (jumpTo ex_won 6) = 6 \<and> currentSquares (jumpTo ex_won 6) = None
   \<and> currentMove (jumpTo ex_won (- 1)) = - 1 \<and> currentSquares (jumpTo ex_won (- 1)) = None"
  using jumpTo_no_range_check [of ex_won 5] jumpTo_no_range_check [of ex_won 6]
    jumpTo_no_range_check [of ex_won "- 1"]
  by (simp add: ex_won_def)

end
